theory Spec2Isabelle
  imports Main
begin

section \<open>Rectangle\<close>

text \<open>
  \<^verbatim>\<open>function Rectangle(width, height)\<close> stores its two arguments and installs
  \<^verbatim>\<open>getArea = () => this.width * this.height\<close>. The numbers are kept abstract:
  any type with a multiplication, so that nothing is assumed about how the
  product is computed.
\<close>

record 'a Rectangle =
  width :: 'a
  height :: 'a

definition new_Rectangle :: "'a \<Rightarrow> 'a \<Rightarrow> 'a Rectangle" where
  "new_Rectangle w h = \<lparr>width = w, height = h\<rparr>"

definition getArea :: "'a::times Rectangle \<Rightarrow> 'a" where
  "getArea this = width this * height this"


section \<open>Strings and arrays of the host language\<close>

text \<open>\<^verbatim>\<open>Array.prototype.join\<close> on an array of strings.\<close>

fun join :: "string \<Rightarrow> string list \<Rightarrow> string" where
  "join sep [] = []"
| "join sep [x] = x"
| "join sep (x # y # ys) = x @ sep @ join sep (y # ys)"

text \<open>
  A property value of the selector object is \<^verbatim>\<open>null\<close> or a string;
  \<^verbatim>\<open>join\<close> renders \<^verbatim>\<open>null\<close> as the empty string.
\<close>

fun str_of :: "string option \<Rightarrow> string" where
  "str_of None = []"
| "str_of (Some s) = s"

text \<open>\<^verbatim>\<open>String.prototype.includes\<close>: the argument occurs as a contiguous substring.\<close>

fun starts_with :: "string \<Rightarrow> string \<Rightarrow> bool" where
  "starts_with s [] = True"
| "starts_with [] (c # t) = False"
| "starts_with (a # s) (c # t) = (a = c \<and> starts_with s t)"

fun includes_str :: "string \<Rightarrow> string \<Rightarrow> bool" where
  "includes_str [] t = (t = [])"
| "includes_str (a # s) t = (starts_with (a # s) t \<or> includes_str s t)"


section \<open>Statements that may throw\<close>

text \<open>
  A method body runs on the receiver's state. It either completes (\<open>None\<close>) or
  throws (\<open>Some e\<close>); in both cases it leaves a state behind, which is what
  a caller that catches the exception goes on with.
\<close>

datatype error = Error string

type_synonym 's stmt = "'s \<Rightarrow> error option \<times> 's"

definition throw_stmt :: "error \<Rightarrow> 's stmt" where
  "throw_stmt e = (\<lambda>s. (Some e, s))"

definition assign_stmt :: "('s \<Rightarrow> 's) \<Rightarrow> 's stmt" where
  "assign_stmt f = (\<lambda>s. (None, f s))"

definition if_stmt :: "('s \<Rightarrow> bool) \<Rightarrow> 's stmt \<Rightarrow> 's stmt" where
  "if_stmt c p = (\<lambda>s. if c s then p s else (None, s))"

definition seq_stmt :: "'s stmt \<Rightarrow> 's stmt \<Rightarrow> 's stmt" where
  "seq_stmt p q = (\<lambda>s. case p s of (None, s') \<Rightarrow> q s' | (Some e, s') \<Rightarrow> (Some e, s'))"


section \<open>MyBuilder\<close>

text \<open>
  The selector object has six properties, created in this order by the
  constructor: element, id, class, attr, pseudoClass, pseudoElement. The
  properties element, id and pseudoElement start as \<^verbatim>\<open>null\<close>, the other
  three as the empty string. The field names carry the prefix \<open>so_\<close> because
  \<open>id\<close> and \<open>class\<close> are taken.
\<close>

record selectorObject =
  so_element :: "string option"
  so_id :: "string option"
  so_class :: string
  so_attr :: string
  so_pseudoClass :: string
  so_pseudoElement :: "string option"

record MyBuilder =
  selectorText :: string
  selectorObject :: selectorObject

text \<open>
  The check strings and the two messages are set once by the constructor and
  never assigned again; they are constants here. The arguments of the setters
  are strings, the empty string included.
\<close>

definition checkElementString :: string where
  "checkElementString = ''element id class attr pseudoClass pseudoElement''"

definition checkIdString :: string where
  "checkIdString = ''id class attr pseudoClass pseudoElement''"

definition checkClassString :: string where
  "checkClassString = ''attr pseudoClass pseudoElement''"

definition checkAttrString :: string where
  "checkAttrString = ''pseudoClass pseudoElement''"

definition checkPseudoString :: string where
  "checkPseudoString = ''pseudoElement''"

definition uniError :: string where
  "uniError = ''Element, id and pseudo-element should not occur more then one time inside the selector''"

definition ordError :: string where
  "ordError = ''Selector parts should be arranged in the following order: element, id, class, attribute, pseudo-class, pseudo-element''"

definition new_MyBuilder :: MyBuilder where
  "new_MyBuilder =
     \<lparr>selectorText = [],
      selectorObject =
        \<lparr>so_element = None, so_id = None, so_class = [], so_attr = [],
         so_pseudoClass = [], so_pseudoElement = None\<rparr>\<rparr>"

text \<open>The own properties of the selector object, in creation order.\<close>

definition entries :: "selectorObject \<Rightarrow> (string \<times> string option) list" where
  "entries so =
     [(''element'', so_element so),
      (''id'', so_id so),
      (''class'', Some (so_class so)),
      (''attr'', Some (so_attr so)),
      (''pseudoClass'', Some (so_pseudoClass so)),
      (''pseudoElement'', so_pseudoElement so)]"

definition object_keys :: "selectorObject \<Rightarrow> string list" where
  "object_keys so = map fst (entries so)"

definition object_values :: "selectorObject \<Rightarrow> string option list" where
  "object_values so = map snd (entries so)"

text \<open>\<^verbatim>\<open>so[key] === null || so[key] === ''\<close>\<close>

definition null_or_empty :: "selectorObject \<Rightarrow> string \<Rightarrow> bool" where
  "null_or_empty so key =
     (map_of (entries so) key = Some None \<or> map_of (entries so) key = Some (Some []))"

definition stringify :: "MyBuilder \<Rightarrow> string" where
  "stringify this =
     selectorText this @ join [] (map str_of (object_values (selectorObject this)))"

definition getNulls :: "MyBuilder \<Rightarrow> string" where
  "getNulls this =
     join '' ''
       (filter (null_or_empty (selectorObject this)) (object_keys (selectorObject this)))"

definition selector :: "string \<Rightarrow> MyBuilder stmt" where
  "selector v = assign_stmt (\<lambda>this. this\<lparr>selectorText := selectorText this @ v\<rparr>)"

definition element :: "string \<Rightarrow> MyBuilder stmt" where
  "element v =
     seq_stmt (if_stmt (\<lambda>this. so_element (selectorObject this) \<noteq> None)
                 (throw_stmt (Error uniError)))
    (seq_stmt (if_stmt (\<lambda>this. getNulls this \<noteq> checkElementString)
                 (throw_stmt (Error ordError)))
              (assign_stmt (\<lambda>this. this\<lparr>selectorObject :=
                 (selectorObject this)\<lparr>so_element := Some v\<rparr>\<rparr>)))"

definition id_sel :: "string \<Rightarrow> MyBuilder stmt" where
  "id_sel v =
     seq_stmt (if_stmt (\<lambda>this. so_id (selectorObject this) \<noteq> None)
                 (throw_stmt (Error uniError)))
    (seq_stmt (if_stmt (\<lambda>this. \<not> includes_str (getNulls this) checkIdString)
                 (throw_stmt (Error ordError)))
              (assign_stmt (\<lambda>this. this\<lparr>selectorObject :=
                 (selectorObject this)\<lparr>so_id := Some (''#'' @ v)\<rparr>\<rparr>)))"

definition class_sel :: "string \<Rightarrow> MyBuilder stmt" where
  "class_sel v =
     seq_stmt (if_stmt (\<lambda>this. \<not> includes_str (getNulls this) checkClassString)
                 (throw_stmt (Error ordError)))
              (assign_stmt (\<lambda>this. this\<lparr>selectorObject :=
                 (selectorObject this)\<lparr>so_class :=
                    so_class (selectorObject this) @ ''.'' @ v\<rparr>\<rparr>))"

definition attr :: "string \<Rightarrow> MyBuilder stmt" where
  "attr v =
     seq_stmt (if_stmt (\<lambda>this. \<not> includes_str (getNulls this) checkAttrString)
                 (throw_stmt (Error ordError)))
              (assign_stmt (\<lambda>this. this\<lparr>selectorObject :=
                 (selectorObject this)\<lparr>so_attr :=
                    so_attr (selectorObject this) @ ''['' @ v @ '']''\<rparr>\<rparr>))"

definition pseudoClass :: "string \<Rightarrow> MyBuilder stmt" where
  "pseudoClass v =
     seq_stmt (if_stmt (\<lambda>this. \<not> includes_str (getNulls this) checkPseudoString)
                 (throw_stmt (Error ordError)))
              (assign_stmt (\<lambda>this. this\<lparr>selectorObject :=
                 (selectorObject this)\<lparr>so_pseudoClass :=
                    so_pseudoClass (selectorObject this) @ '':'' @ v\<rparr>\<rparr>))"

definition pseudoElement :: "string \<Rightarrow> MyBuilder stmt" where
  "pseudoElement v =
     seq_stmt (if_stmt (\<lambda>this. so_pseudoElement (selectorObject this) \<noteq> None)
                 (throw_stmt (Error uniError)))
    (seq_stmt (if_stmt (\<lambda>this. \<not> includes_str (getNulls this) checkPseudoString)
                 (throw_stmt (Error ordError)))
              (assign_stmt (\<lambda>this. this\<lparr>selectorObject :=
                 (selectorObject this)\<lparr>so_pseudoElement := Some (''::'' @ v)\<rparr>\<rparr>)))"


section \<open>Calls on one builder\<close>

text \<open>
  One call of a category setter with its argument, named as the specification
  names the operations. \<open>invoke_call\<close> is the method the call runs.
\<close>

datatype call =
  SetElement string
| SetId string
| AddClass string
| AddAttr string
| AddPseudoClass string
| SetPseudoElement string

fun invoke_call :: "call \<Rightarrow> MyBuilder stmt" where
  "invoke_call (SetElement v) = element v"
| "invoke_call (SetId v) = id_sel v"
| "invoke_call (AddClass v) = class_sel v"
| "invoke_call (AddAttr v) = attr v"
| "invoke_call (AddPseudoClass v) = pseudoClass v"
| "invoke_call (SetPseudoElement v) = pseudoElement v"

text \<open>
  A chain \<^verbatim>\<open>b.m1(v1).m2(v2)...\<close>: every method returns its receiver, and the
  first exception ends the chain.
\<close>

fun run :: "call list \<Rightarrow> MyBuilder stmt" where
  "run [] = (\<lambda>this. (None, this))"
| "run (c # cs) = seq_stmt (invoke_call c) (run cs)"

text \<open>
  A caller that catches: every call is made, whatever the earlier ones did, and
  the outcome of each is recorded.
\<close>

fun trace :: "MyBuilder \<Rightarrow> call list \<Rightarrow> error option list" where
  "trace this [] = []"
| "trace this (c # cs) = fst (invoke_call c this) # trace (snd (invoke_call c this)) cs"

text \<open>The six categories and their fixed order.\<close>

datatype category =
  CatElement | CatId | CatClass | CatAttr | CatPseudoClass | CatPseudoElement

fun rank :: "category \<Rightarrow> nat" where
  "rank CatElement = 0"
| "rank CatId = 1"
| "rank CatClass = 2"
| "rank CatAttr = 3"
| "rank CatPseudoClass = 4"
| "rank CatPseudoElement = 5"

fun singular :: "category \<Rightarrow> bool" where
  "singular CatElement = True"
| "singular CatId = True"
| "singular CatPseudoElement = True"
| "singular c = False"

fun category_of :: "call \<Rightarrow> category" where
  "category_of (SetElement v) = CatElement"
| "category_of (SetId v) = CatId"
| "category_of (AddClass v) = CatClass"
| "category_of (AddAttr v) = CatAttr"
| "category_of (AddPseudoClass v) = CatPseudoClass"
| "category_of (SetPseudoElement v) = CatPseudoElement"

text \<open>The text a call contributes to the rendering.\<close>

fun fragment :: "call \<Rightarrow> string" where
  "fragment (SetElement v) = v"
| "fragment (SetId v) = ''#'' @ v"
| "fragment (AddClass v) = ''.'' @ v"
| "fragment (AddAttr v) = ''['' @ v @ '']''"
| "fragment (AddPseudoClass v) = '':'' @ v"
| "fragment (SetPseudoElement v) = ''::'' @ v"

text \<open>The fragments of one category, in the order of the calls.\<close>

definition fragments_of :: "category \<Rightarrow> call list \<Rightarrow> string" where
  "fragments_of k cs = concat (map fragment (filter (\<lambda>c. category_of c = k) cs))"

text \<open>Whether a category has received a call in a history of accepted calls.\<close>

definition received :: "call list \<Rightarrow> category \<Rightarrow> bool" where
  "received cs k = (k \<in> category_of ` set cs)"

definition later_received :: "call list \<Rightarrow> category \<Rightarrow> bool" where
  "later_received cs k = (\<exists>d \<in> set cs. rank k < rank (category_of d))"

text \<open>The same read off a builder's state: the property is no longer as created.\<close>

fun touched :: "MyBuilder \<Rightarrow> category \<Rightarrow> bool" where
  "touched this CatElement = (so_element (selectorObject this) \<noteq> None)"
| "touched this CatId = (so_id (selectorObject this) \<noteq> None)"
| "touched this CatClass = (so_class (selectorObject this) \<noteq> [])"
| "touched this CatAttr = (so_attr (selectorObject this) \<noteq> [])"
| "touched this CatPseudoClass = (so_pseudoClass (selectorObject this) \<noteq> [])"
| "touched this CatPseudoElement = (so_pseudoElement (selectorObject this) \<noteq> None)"


section \<open>The reference model of the check\<close>

text \<open>
  Written from the specification's words, not from the code: an explicit set of
  touched categories and a pointer to the highest category touched so far. A
  call of a singular category that was already set is a uniqueness violation;
  otherwise a call whose category is behind the pointer is an ordering
  violation; an accepted call enters the set and moves the pointer.
\<close>

datatype violation = Uniqueness | Ordering

record ref_model =
  touched_set :: "category set"
  pointer :: "category option"

definition ref_init :: ref_model where
  "ref_init = \<lparr>touched_set = {}, pointer = None\<rparr>"

fun behind :: "category \<Rightarrow> category option \<Rightarrow> bool" where
  "behind k None = False"
| "behind k (Some p) = (rank k < rank p)"

definition ref_call :: "category \<Rightarrow> ref_model \<Rightarrow> violation option \<times> ref_model" where
  "ref_call k m =
     (if singular k \<and> k \<in> touched_set m then (Some Uniqueness, m)
      else if behind k (pointer m) then (Some Ordering, m)
      else (None, \<lparr>touched_set = insert k (touched_set m), pointer = Some k\<rparr>))"

fun ref_trace :: "ref_model \<Rightarrow> call list \<Rightarrow> violation option list" where
  "ref_trace m [] = []"
| "ref_trace m (c # cs) =
     fst (ref_call (category_of c) m) # ref_trace (snd (ref_call (category_of c) m)) cs"

text \<open>The error the code throws for each kind of violation.\<close>

fun error_of :: "violation \<Rightarrow> error" where
  "error_of Uniqueness = Error uniError"
| "error_of Ordering = Error ordError"


section \<open>Builders as objects: the store and the facade\<close>

text \<open>
  A builder is an object with an identity. The store lists the objects
  allocated so far; a reference is a position in it. \<^verbatim>\<open>new MyBuilder()\<close>
  allocates at the end, so a new reference differs from every earlier one.
\<close>

type_synonym addr = nat

type_synonym heap = "MyBuilder list"

definition alloc :: "heap \<Rightarrow> addr \<times> heap" where
  "alloc h = (length h, h @ [new_MyBuilder])"

text \<open>
  A method call on a reference: the body runs on the object's state, the
  object is updated in place, and the method returns its receiver.
\<close>

definition invoke :: "addr \<Rightarrow> MyBuilder stmt \<Rightarrow> heap \<Rightarrow> (error + addr) \<times> heap" where
  "invoke r m h =
     (case m (h ! r) of
        (None, b) \<Rightarrow> (Inr r, h[r := b])
      | (Some e, b) \<Rightarrow> (Inl e, h[r := b]))"

definition css_stringify :: "heap \<Rightarrow> string \<times> heap" where
  "css_stringify h = (case alloc h of (r, h1) \<Rightarrow> (stringify (h1 ! r), h1))"

definition css_element :: "string \<Rightarrow> heap \<Rightarrow> (error + addr) \<times> heap" where
  "css_element v h = (case alloc h of (r, h1) \<Rightarrow> invoke r (element v) h1)"

definition css_id :: "string \<Rightarrow> heap \<Rightarrow> (error + addr) \<times> heap" where
  "css_id v h = (case alloc h of (r, h1) \<Rightarrow> invoke r (id_sel v) h1)"

definition css_class :: "string \<Rightarrow> heap \<Rightarrow> (error + addr) \<times> heap" where
  "css_class v h = (case alloc h of (r, h1) \<Rightarrow> invoke r (class_sel v) h1)"

definition css_attr :: "string \<Rightarrow> heap \<Rightarrow> (error + addr) \<times> heap" where
  "css_attr v h = (case alloc h of (r, h1) \<Rightarrow> invoke r (attr v) h1)"

definition css_pseudoClass :: "string \<Rightarrow> heap \<Rightarrow> (error + addr) \<times> heap" where
  "css_pseudoClass v h = (case alloc h of (r, h1) \<Rightarrow> invoke r (pseudoClass v) h1)"

definition css_pseudoElement :: "string \<Rightarrow> heap \<Rightarrow> (error + addr) \<times> heap" where
  "css_pseudoElement v h = (case alloc h of (r, h1) \<Rightarrow> invoke r (pseudoElement v) h1)"

definition css_combine :: "addr \<Rightarrow> string \<Rightarrow> addr \<Rightarrow> heap \<Rightarrow> (error + addr) \<times> heap" where
  "css_combine selector1 combinator selector2 h =
     (case alloc h of (r, h1) \<Rightarrow>
        invoke r
          (selector (stringify (h1 ! selector1) @ '' '' @ combinator @ '' '' @
                     stringify (h1 ! selector2)))
          h1)"

text \<open>The facade method that corresponds to a call.\<close>

fun css_call :: "call \<Rightarrow> heap \<Rightarrow> (error + addr) \<times> heap" where
  "css_call (SetElement v) = css_element v"
| "css_call (SetId v) = css_id v"
| "css_call (AddClass v) = css_class v"
| "css_call (AddAttr v) = css_attr v"
| "css_call (AddPseudoClass v) = css_pseudoClass v"
| "css_call (SetPseudoElement v) = css_pseudoElement v"

text \<open>
  Setter calls made one after the other on builders of the store, each on the
  reference it names; an exception is caught and the next call is made.
\<close>

fun run_calls :: "(addr \<times> call) list \<Rightarrow> heap \<Rightarrow> heap" where
  "run_calls [] h = h"
| "run_calls ((r, c) # rcs) h = run_calls rcs (snd (invoke r (invoke_call c) h))"


section \<open>The selector object as an object of its own\<close>

text \<open>
  The constructor creates the selector object with an object literal and keeps
  a reference to it in the builder; the setters assign through that reference.
  Whether two builders can affect each other depends on whether their
  references differ, so this store keeps the two kinds of object apart: a
  builder object holds its prefix text and the position of its selector
  object.
\<close>

record builder_object =
  bo_selectorText :: string
  bo_selectorObject :: addr

record store =
  builders :: "builder_object list"
  selectorObjects :: "selectorObject list"

definition empty_store :: store where
  "empty_store = \<lparr>builders = [], selectorObjects = []\<rparr>"

text \<open>
  \<^verbatim>\<open>new MyBuilder()\<close>: a new selector object with the constructor's values,
  and a new builder that refers to it.
\<close>

definition construct :: "store \<Rightarrow> addr \<times> store" where
  "construct s =
     (length (builders s),
      \<lparr>builders = builders s @
         [\<lparr>bo_selectorText = selectorText new_MyBuilder,
           bo_selectorObject = length (selectorObjects s)\<rparr>],
       selectorObjects = selectorObjects s @ [selectorObject new_MyBuilder]\<rparr>)"

text \<open>What a method sees as \<^verbatim>\<open>this\<close>, read through the reference.\<close>

definition view :: "store \<Rightarrow> addr \<Rightarrow> MyBuilder" where
  "view s r =
     \<lparr>selectorText = bo_selectorText (builders s ! r),
      selectorObject = selectorObjects s ! bo_selectorObject (builders s ! r)\<rparr>"

text \<open>
  The assignments of a method body: \<^verbatim>\<open>this.selectorText = ...\<close> goes to the
  builder object, \<^verbatim>\<open>this.selectorObject.k = ...\<close> to the object the builder
  refers to. No method assigns the reference itself.
\<close>

definition write_back :: "addr \<Rightarrow> MyBuilder \<Rightarrow> store \<Rightarrow> store" where
  "write_back r b s =
     \<lparr>builders = (builders s)[r := (builders s ! r)\<lparr>bo_selectorText := selectorText b\<rparr>],
      selectorObjects =
        (selectorObjects s)[bo_selectorObject (builders s ! r) := selectorObject b]\<rparr>"

definition call_method :: "addr \<Rightarrow> MyBuilder stmt \<Rightarrow> store \<Rightarrow> (error + addr) \<times> store" where
  "call_method r m s =
     (case m (view s r) of
        (None, b) \<Rightarrow> (Inr r, write_back r b s)
      | (Some e, b) \<Rightarrow> (Inl e, write_back r b s))"

text \<open>The facade on this store: its six setter methods, \<open>combine\<close> and \<open>stringify\<close>.\<close>

definition store_call :: "call \<Rightarrow> store \<Rightarrow> (error + addr) \<times> store" where
  "store_call c s = (case construct s of (r, s1) \<Rightarrow> call_method r (invoke_call c) s1)"

definition store_combine :: "addr \<Rightarrow> string \<Rightarrow> addr \<Rightarrow> store \<Rightarrow> (error + addr) \<times> store" where
  "store_combine selector1 combinator selector2 s =
     (case construct s of (r, s1) \<Rightarrow>
        call_method r
          (selector (stringify (view s1 selector1) @ '' '' @ combinator @ '' '' @
                     stringify (view s1 selector2)))
          s1)"

definition store_stringify :: "store \<Rightarrow> string \<times> store" where
  "store_stringify s = (case construct s of (r, s1) \<Rightarrow> (stringify (view s1 r), s1))"

text \<open>
  What a client can do: call the facade, or call a setter on a builder it
  holds. A client only holds references the facade has returned, so an
  operation that names another position does nothing. An exception is caught
  and the next operation is made.
\<close>

datatype operation = Facade call | Combine addr string addr | Stringify | Setter addr call

fun exec_op :: "operation \<Rightarrow> store \<Rightarrow> store" where
  "exec_op (Facade c) s = snd (store_call c s)"
| "exec_op (Combine r1 c r2) s =
     (if r1 < length (builders s) \<and> r2 < length (builders s)
      then snd (store_combine r1 c r2 s) else s)"
| "exec_op Stringify s = snd (store_stringify s)"
| "exec_op (Setter r c) s =
     (if r < length (builders s) then snd (call_method r (invoke_call c) s) else s)"

fun exec :: "operation list \<Rightarrow> store \<Rightarrow> store" where
  "exec [] s = s"
| "exec (x # xs) s = exec xs (exec_op x s)"

text \<open>No two builders refer to the same selector object, and no reference dangles.\<close>

definition separate :: "store \<Rightarrow> bool" where
  "separate s =
     (distinct (map bo_selectorObject (builders s)) \<and>
      list_all (\<lambda>b. bo_selectorObject b < length (selectorObjects s)) (builders s))"


section \<open>Auxiliary notions for the proofs\<close>

text \<open>
  The string \<open>getNulls\<close> returns depends only on which of the six properties
  are null or empty; \<open>nulls_of\<close> is that string as a function of six flags.
\<close>

definition nulls_of :: "bool \<Rightarrow> bool \<Rightarrow> bool \<Rightarrow> bool \<Rightarrow> bool \<Rightarrow> bool \<Rightarrow> string" where
  "nulls_of e i c a p q =
     join '' ''
       ((if e then [''element''] else []) @ (if i then [''id''] else []) @
        (if c then [''class''] else []) @ (if a then [''attr''] else []) @
        (if p then [''pseudoClass''] else []) @ (if q then [''pseudoElement''] else []))"

text \<open>
  Every builder the methods can produce keeps id and pseudoElement either
  \<^verbatim>\<open>null\<close> or non-empty, since they are stored with their \<^verbatim>\<open>#\<close> and
  \<^verbatim>\<open>::\<close> prefixes.
\<close>

definition proper :: "MyBuilder \<Rightarrow> bool" where
  "proper this =
     (so_id (selectorObject this) \<noteq> Some [] \<and>
      so_pseudoElement (selectorObject this) \<noteq> Some [])"

definition later_touched :: "MyBuilder \<Rightarrow> category \<Rightarrow> bool" where
  "later_touched this k = (\<exists>j. rank k < rank j \<and> touched this j)"

text \<open>What a builder renders for one category.\<close>

definition rendered :: "MyBuilder \<Rightarrow> category \<Rightarrow> string" where
  "rendered this k =
     (case k of
        CatElement \<Rightarrow> str_of (so_element (selectorObject this))
      | CatId \<Rightarrow> str_of (so_id (selectorObject this))
      | CatClass \<Rightarrow> so_class (selectorObject this)
      | CatAttr \<Rightarrow> so_attr (selectorObject this)
      | CatPseudoClass \<Rightarrow> so_pseudoClass (selectorObject this)
      | CatPseudoElement \<Rightarrow> str_of (so_pseudoElement (selectorObject this)))"

text \<open>The correspondence between a builder and a state of the reference model.\<close>

definition sim :: "MyBuilder \<Rightarrow> ref_model \<Rightarrow> bool" where
  "sim this m =
     (proper this \<and>
      (\<forall>k. touched this k = (k \<in> touched_set m)) \<and>
      (\<forall>k. behind k (pointer m) = (\<exists>j. rank k < rank j \<and> j \<in> touched_set m)))"


section \<open>The checks, read off the state\<close>

lemma getNulls_nulls_of:
  "getNulls this =
     nulls_of (so_element (selectorObject this) = None \<or> so_element (selectorObject this) = Some [])
              (so_id (selectorObject this) = None \<or> so_id (selectorObject this) = Some [])
              (so_class (selectorObject this) = [])
              (so_attr (selectorObject this) = [])
              (so_pseudoClass (selectorObject this) = [])
              (so_pseudoElement (selectorObject this) = None \<or> so_pseudoElement (selectorObject this) = Some [])"
  by (simp add: getNulls_def nulls_of_def object_keys_def entries_def null_or_empty_def)

lemma nulls_element: "(nulls_of e i c a p q = checkElementString) = (e \<and> i \<and> c \<and> a \<and> p \<and> q)"
  by (cases e; cases i; cases c; cases a; cases p; cases q; simp add: nulls_of_def checkElementString_def)

lemma nulls_id: "includes_str (nulls_of e i c a p q) checkIdString = (i \<and> c \<and> a \<and> p \<and> q)"
  by (cases e; cases i; cases c; cases a; cases p; cases q; simp add: nulls_of_def checkIdString_def)

lemma nulls_class: "includes_str (nulls_of e i c a p q) checkClassString = (a \<and> p \<and> q)"
  by (cases e; cases i; cases c; cases a; cases p; cases q; simp add: nulls_of_def checkClassString_def)

lemma nulls_attr: "includes_str (nulls_of e i c a p q) checkAttrString = (p \<and> q)"
  by (cases e; cases i; cases c; cases a; cases p; cases q; simp add: nulls_of_def checkAttrString_def)

lemma nulls_pseudo: "includes_str (nulls_of e i c a p q) checkPseudoString = q"
  by (cases e; cases i; cases c; cases a; cases p; cases q; simp add: nulls_of_def checkPseudoString_def)

lemmas nulls_checks = getNulls_nulls_of nulls_element nulls_id nulls_class nulls_attr nulls_pseudo

lemmas stmt_defs = seq_stmt_def if_stmt_def throw_stmt_def assign_stmt_def

lemma uniError_neq_ordError: "uniError \<noteq> ordError"
  by (simp add: uniError_def ordError_def)

text \<open>\<open>includes_str\<close> is the substring test.\<close>

lemma starts_with_iff: "starts_with s t = (\<exists>q. s = t @ q)"
  by (induction s t rule: starts_with.induct) auto

lemma includes_str_iff: "includes_str s t = (\<exists>p q. s = p @ t @ q)"
proof (induction s)
  case Nil
  show ?case by auto
next
  case (Cons a s)
  have "(\<exists>p q. a # s = p @ t @ q) = ((\<exists>q. a # s = t @ q) \<or> (\<exists>p q. s = p @ t @ q))"
  proof
    assume "\<exists>p q. a # s = p @ t @ q"
    then obtain p q where pq: "a # s = p @ t @ q" by blast
    show "(\<exists>q. a # s = t @ q) \<or> (\<exists>p q. s = p @ t @ q)"
    proof (cases p)
      case Nil
      with pq show ?thesis by auto
    next
      case (Cons b p')
      with pq have "s = p' @ t @ q" by simp
      then show ?thesis by blast
    qed
  next
    assume "(\<exists>q. a # s = t @ q) \<or> (\<exists>p q. s = p @ t @ q)"
    then show "\<exists>p q. a # s = p @ t @ q"
    proof
      assume "\<exists>q. a # s = t @ q"
      then obtain q where "a # s = [] @ t @ q" by auto
      then show ?thesis by blast
    next
      assume "\<exists>p q. s = p @ t @ q"
      then obtain p q where "a # s = (a # p) @ t @ q" by auto
      then show ?thesis by blast
    qed
  qed
  with Cons show ?case by (simp add: starts_with_iff del: starts_with.simps)
qed

lemma category_ex: "(\<exists>k. P k) = (P CatElement \<or> P CatId \<or> P CatClass \<or> P CatAttr \<or> P CatPseudoClass \<or> P CatPseudoElement)"
  by (metis category.exhaust)

lemma invoke_call_outcome:
  assumes "proper this"
  shows "fst (invoke_call c this) =
     (if singular (category_of c) \<and> touched this (category_of c) then Some (Error uniError)
      else if later_touched this (category_of c) then Some (Error ordError)
      else None)"
  using assms
  by (cases c) (auto simp: proper_def later_touched_def category_ex element_def id_sel_def class_sel_def attr_def
      pseudoClass_def pseudoElement_def stmt_defs nulls_checks)

lemma invoke_call_rejected:
  "fst (invoke_call c this) = Some e \<Longrightarrow> snd (invoke_call c this) = this"
  by (cases c) (auto simp: element_def id_sel_def class_sel_def attr_def
      pseudoClass_def pseudoElement_def stmt_defs split: if_splits)

lemma invoke_call_accepted:
  assumes "fst (invoke_call c this) = None" "proper this"
  shows "proper (snd (invoke_call c this))"
    and "touched (snd (invoke_call c this)) k = (touched this k \<or> k = category_of c)"
    and "selectorText (snd (invoke_call c this)) = selectorText this"
  using assms
  by (cases c; cases k; auto simp: proper_def element_def id_sel_def class_sel_def attr_def
      pseudoClass_def pseudoElement_def stmt_defs split: if_splits)+


section \<open>Histories of accepted calls\<close>

lemma run_Cons_accepted:
  "run (c # cs) this = (None, b) \<Longrightarrow>
     fst (invoke_call c this) = None \<and> run cs (snd (invoke_call c this)) = (None, b)"
  by (cases "invoke_call c this") (auto simp: seq_stmt_def split: option.splits)

lemma fresh_proper: "proper (new_MyBuilder\<lparr>selectorText := p\<rparr>)"
  by (simp add: proper_def new_MyBuilder_def)

lemma fresh_untouched: "\<not> touched (new_MyBuilder\<lparr>selectorText := p\<rparr>) k"
  by (cases k) (simp_all add: new_MyBuilder_def)

lemma run_accepted:
  assumes "run cs this = (None, b)" "proper this"
  shows "proper b \<and> (\<forall>k. touched b k = (touched this k \<or> received cs k)) \<and>
         selectorText b = selectorText this"
  using assms
proof (induction cs arbitrary: this)
  case Nil
  then show ?case by (simp add: received_def)
next
  case (Cons c cs)
  from run_Cons_accepted [OF Cons.prems(1)]
  have acc: "fst (invoke_call c this) = None"
    and rest: "run cs (snd (invoke_call c this)) = (None, b)" by simp_all
  note step = invoke_call_accepted [OF acc Cons.prems(2)]
  from Cons.IH [OF rest step(1)] step(2,3)
  show ?case by (auto simp: received_def)
qed

lemma history_touched:
  assumes "run cs (new_MyBuilder\<lparr>selectorText := p\<rparr>) = (None, b)"
  shows "proper b" and "touched b k = received cs k" and "selectorText b = p"
  using run_accepted [OF assms fresh_proper] by (simp_all add: fresh_untouched)

lemma history_later_touched:
  assumes "run cs (new_MyBuilder\<lparr>selectorText := p\<rparr>) = (None, b)"
  shows "later_touched b k = later_received cs k"
  unfolding later_touched_def later_received_def history_touched(2) [OF assms] received_def
  by auto

lemma stringify_unfold:
  "stringify this =
     selectorText this @ str_of (so_element (selectorObject this)) @
     str_of (so_id (selectorObject this)) @ so_class (selectorObject this) @
     so_attr (selectorObject this) @ so_pseudoClass (selectorObject this) @
     str_of (so_pseudoElement (selectorObject this))"
  by (simp add: stringify_def object_values_def entries_def)

lemma fragments_of_Nil: "fragments_of k [] = []"
  by (simp add: fragments_of_def)

lemma fragments_of_Cons:
  "fragments_of k (c # cs) = (if category_of c = k then fragment c else []) @ fragments_of k cs"
  by (simp add: fragments_of_def)

lemma invoke_call_rendered:
  assumes "fst (invoke_call c this) = None"
  shows "rendered (snd (invoke_call c this)) k =
           rendered this k @ (if category_of c = k then fragment c else [])"
  using assms
  by (cases c; cases k; auto simp: rendered_def element_def id_sel_def class_sel_def attr_def
      pseudoClass_def pseudoElement_def stmt_defs split: if_splits)

lemma run_rendered:
  assumes "run cs this = (None, b)"
  shows "rendered b k = rendered this k @ fragments_of k cs"
  using assms
proof (induction cs arbitrary: this)
  case Nil
  then show ?case by (simp add: fragments_of_Nil)
next
  case (Cons c cs)
  from run_Cons_accepted [OF Cons.prems]
  have acc: "fst (invoke_call c this) = None"
    and rest: "run cs (snd (invoke_call c this)) = (None, b)" by simp_all
  show ?case
    unfolding Cons.IH [OF rest] invoke_call_rendered [OF acc] fragments_of_Cons by simp
qed

lemma fresh_rendered: "rendered (new_MyBuilder\<lparr>selectorText := p\<rparr>) k = []"
  by (cases k) (simp_all add: rendered_def new_MyBuilder_def)

lemma stringify_rendered:
  "stringify this =
     selectorText this @ rendered this CatElement @ rendered this CatId @
     rendered this CatClass @ rendered this CatAttr @ rendered this CatPseudoClass @
     rendered this CatPseudoElement"
  by (simp add: stringify_unfold rendered_def)

lemma run_singular_once:
  assumes "run cs this = (None, b)" "proper this" "singular k"
  shows "(touched this k \<longrightarrow> filter (\<lambda>c. category_of c = k) cs = []) \<and>
         length (filter (\<lambda>c. category_of c = k) cs) \<le> 1"
  using assms
proof (induction cs arbitrary: this)
  case Nil
  then show ?case by simp
next
  case (Cons c cs)
  from run_Cons_accepted [OF Cons.prems(1)]
  have acc: "fst (invoke_call c this) = None"
    and rest: "run cs (snd (invoke_call c this)) = (None, b)" by simp_all
  note step = invoke_call_accepted [OF acc Cons.prems(2)]
  note IH = Cons.IH [OF rest step(1) Cons.prems(3)]
  from acc have no: "\<not> (singular (category_of c) \<and> touched this (category_of c))"
    by (simp add: invoke_call_outcome [OF Cons.prems(2)] split: if_splits)
  show ?case
  proof (cases "category_of c = k")
    case True
    with step(2) [of k] IH no Cons.prems(3) show ?thesis by auto
  next
    case False
    with step(2) [of k] IH show ?thesis by auto
  qed
qed


section \<open>Simulation by the reference model\<close>

lemma sim_init: "sim (new_MyBuilder\<lparr>selectorText := p\<rparr>) ref_init"
  by (simp add: sim_def fresh_proper fresh_untouched ref_init_def)

lemma sim_outcome:
  assumes "sim this m"
  shows "fst (invoke_call c this) = map_option error_of (fst (ref_call (category_of c) m))"
proof -
  from assms have p: "proper this"
    and t: "\<And>k. touched this k = (k \<in> touched_set m)"
    and b: "\<And>k. behind k (pointer m) = (\<exists>j. rank k < rank j \<and> j \<in> touched_set m)"
    by (simp_all add: sim_def)
  have l: "later_touched this (category_of c) = behind (category_of c) (pointer m)"
    by (simp add: later_touched_def t b)
  show ?thesis
    by (simp add: invoke_call_outcome [OF p] l t ref_call_def)
qed

lemma sim_step:
  assumes "sim this m"
  shows "sim (snd (invoke_call c this)) (snd (ref_call (category_of c) m))"
proof (cases "fst (invoke_call c this)")
  case (Some e)
  then have "fst (ref_call (category_of c) m) \<noteq> None"
    using sim_outcome [OF assms, of c] by auto
  then have "snd (ref_call (category_of c) m) = m"
    by (auto simp: ref_call_def split: if_splits)
  with invoke_call_rejected [OF Some] assms show ?thesis by simp
next
  case None
  from assms have p: "proper this"
    and t: "\<And>k. touched this k = (k \<in> touched_set m)"
    and b: "\<And>k. behind k (pointer m) = (\<exists>j. rank k < rank j \<and> j \<in> touched_set m)"
    by (simp_all add: sim_def)
  note acc = invoke_call_accepted [OF None p]
  from None have r: "fst (ref_call (category_of c) m) = None"
    using sim_outcome [OF assms, of c] by auto
  then have nb: "\<not> behind (category_of c) (pointer m)"
    and m': "snd (ref_call (category_of c) m) =
      \<lparr>touched_set = insert (category_of c) (touched_set m), pointer = Some (category_of c)\<rparr>"
    by (auto simp: ref_call_def split: if_splits)
  from nb have top: "\<And>j. j \<in> touched_set m \<Longrightarrow> rank j \<le> rank (category_of c)"
    unfolding b by (meson not_le_imp_less)
  have "(\<exists>j. rank k < rank j \<and> j \<in> insert (category_of c) (touched_set m)) =
        (rank k < rank (category_of c))" for k
    using top by (auto intro: less_le_trans)
  then show ?thesis
    unfolding m' using acc(1) by (auto simp: sim_def acc(2) t)
qed

lemma sim_trace:
  assumes "sim this m"
  shows "trace this cs = map (map_option error_of) (ref_trace m cs)"
  using assms
proof (induction cs arbitrary: this m)
  case Nil
  show ?case by simp
next
  case (Cons c cs)
  from Cons.IH [OF sim_step [OF Cons.prems]] sim_outcome [OF Cons.prems]
  show ?case by simp
qed


section \<open>The store\<close>

lemma invoke_eq:
  "invoke r m h =
     (case fst (m (h ! r)) of None \<Rightarrow> Inr r | Some e \<Rightarrow> Inl e, h[r := snd (m (h ! r))])"
  by (cases "m (h ! r)") (simp add: invoke_def split: option.splits)

lemma invoke_frame: "r' \<noteq> r \<Longrightarrow> snd (invoke r m h) ! r' = h ! r'"
  by (simp add: invoke_eq)

lemma run_calls_frame:
  "r' \<notin> fst ` set rcs \<Longrightarrow> run_calls rcs h ! r' = h ! r'"
  by (induction rcs h rule: run_calls.induct) (auto simp: invoke_frame)

lemma alloc_invoke:
  "(case alloc h of (r, h1) \<Rightarrow> invoke r m h1) =
     (case fst (m new_MyBuilder) of None \<Rightarrow> Inr (length h) | Some e \<Rightarrow> Inl e,
      h @ [snd (m new_MyBuilder)])"
  by (simp add: alloc_def invoke_eq)

lemma fresh_accepts: "fst (invoke_call c new_MyBuilder) = None"
  by (cases c) (simp_all add: element_def id_sel_def class_sel_def attr_def pseudoClass_def
      pseudoElement_def stmt_defs nulls_checks new_MyBuilder_def)

lemma css_call_eq:
  "css_call c h = (Inr (length h), h @ [snd (invoke_call c new_MyBuilder)])"
  using fresh_accepts [of c]
  by (cases c) (simp_all add: css_element_def css_id_def css_class_def css_attr_def
      css_pseudoClass_def css_pseudoElement_def alloc_invoke)

lemma css_combine_eq:
  "css_combine s1 c s2 h =
     (Inr (length h),
      h @ [new_MyBuilder\<lparr>selectorText :=
             stringify ((h @ [new_MyBuilder]) ! s1) @ '' '' @ c @ '' '' @
             stringify ((h @ [new_MyBuilder]) ! s2)\<rparr>])"
  by (simp add: css_combine_def alloc_def invoke_eq selector_def assign_stmt_def new_MyBuilder_def)

lemma stringify_prefix_only: "stringify (new_MyBuilder\<lparr>selectorText := t\<rparr>) = t"
  by (simp add: stringify_unfold new_MyBuilder_def)


section \<open>The store of builder and selector objects\<close>

lemma refs_write_back:
  "map bo_selectorObject (builders (write_back r b s)) = map bo_selectorObject (builders s)"
  by (cases "r < length (builders s)") (simp_all add: write_back_def map_update list_update_same_conv list_update_beyond)

lemma length_write_back:
  "length (builders (write_back r b s)) = length (builders s)"
  "length (selectorObjects (write_back r b s)) = length (selectorObjects s)"
  by (simp_all add: write_back_def)

lemma separate_write_back: "separate s \<Longrightarrow> separate (write_back r b s)"
  unfolding separate_def list_all_iff
  using refs_write_back [of r b s] length_write_back(2) [of r b s]
  by (metis (no_types, lifting) image_set imageI image_iff)


lemma call_method_eq:
  "call_method r m s =
     (case fst (m (view s r)) of None \<Rightarrow> Inr r | Some e \<Rightarrow> Inl e,
      write_back r (snd (m (view s r))) s)"
  by (cases "m (view s r)") (simp add: call_method_def split: option.splits)

lemma separate_call_method: "separate s \<Longrightarrow> separate (snd (call_method r m s))"
  by (simp add: call_method_eq separate_write_back)

lemma length_call_method:
  "length (builders (snd (call_method r m s))) = length (builders s)"
  by (simp add: call_method_eq length_write_back)

lemma separate_construct: "separate s \<Longrightarrow> separate (snd (construct s))"
  by (auto simp: separate_def construct_def list_all_iff)

lemma length_construct: "length (builders (snd (construct s))) = Suc (length (builders s))"
  by (simp add: construct_def)

lemma fst_construct: "fst (construct s) = length (builders s)"
  by (simp add: construct_def)

lemma separate_empty: "separate empty_store"
  by (simp add: separate_def empty_store_def)

lemma view_write_back_other:
  assumes "separate s" "r1 < length (builders s)" "r2 < length (builders s)" "r1 \<noteq> r2"
  shows "view (write_back r1 b s) r2 = view s r2"
proof -
  from assms have "map bo_selectorObject (builders s) ! r1 \<noteq> map bo_selectorObject (builders s) ! r2"
    by (simp add: separate_def nth_eq_iff_index_eq del: nth_map)
  with assms(2,3) have "bo_selectorObject (builders s ! r1) \<noteq> bo_selectorObject (builders s ! r2)"
    by simp
  with assms(4) show ?thesis
    by (simp add: view_def write_back_def)
qed

lemma view_write_back_same:
  assumes "separate s" "r < length (builders s)"
  shows "view (write_back r b s) r = b"
proof -
  from assms have "bo_selectorObject (builders s ! r) < length (selectorObjects s)"
    by (simp add: separate_def list_all_length)
  with assms(2) show ?thesis
    by (simp add: view_def write_back_def)
qed

text \<open>
  In a separate store a method call acts on the view of its receiver as the
  method body does, and leaves the view of every other builder as it was.
\<close>

lemma view_call_method_other:
  assumes "separate s" "r1 < length (builders s)" "r2 < length (builders s)" "r1 \<noteq> r2"
  shows "view (snd (call_method r1 m s)) r2 = view s r2"
  by (simp add: call_method_eq view_write_back_other [OF assms])

lemma view_call_method_same:
  assumes "separate s" "r < length (builders s)"
  shows "view (snd (call_method r m s)) r = snd (m (view s r))"
  by (simp add: call_method_eq view_write_back_same [OF assms])

lemma view_construct_old:
  assumes "separate s" "r < length (builders s)"
  shows "view (snd (construct s)) r = view s r"
proof -
  from assms have "bo_selectorObject (builders s ! r) < length (selectorObjects s)"
    by (simp add: separate_def list_all_length)
  with assms(2) show ?thesis
    by (simp add: view_def construct_def nth_append)
qed

lemma view_construct_new: "view (snd (construct s)) (length (builders s)) = new_MyBuilder"
  by (simp add: view_def construct_def new_MyBuilder_def)

lemma separate_exec_op: "separate s \<Longrightarrow> separate (exec_op x s)"
  by (cases x)
     (auto simp: store_call_def store_combine_def store_stringify_def split_beta
        separate_call_method separate_construct)

lemma length_exec_op: "length (builders s) \<le> length (builders (exec_op x s))"
  by (cases x)
     (auto simp: store_call_def store_combine_def store_stringify_def split_beta
        length_call_method length_construct)

lemma separate_exec: "separate s \<Longrightarrow> separate (exec xs s)"
  by (induction xs arbitrary: s) (simp_all add: separate_exec_op)

lemma view_setters_other:
  assumes "separate s" "r1 < length (builders s)" "r2 < length (builders s)" "r1 \<noteq> r2"
  shows "view (exec (map (Setter r1) cs) s) r2 = view s r2"
  using assms
proof (induction cs arbitrary: s)
  case Nil
  show ?case by simp
next
  case (Cons c cs)
  let ?s = "snd (call_method r1 (invoke_call c) s)"
  have "view (exec (map (Setter r1) cs) ?s) r2 = view ?s r2"
    using Cons.prems
    by (intro Cons.IH) (simp_all add: separate_call_method length_call_method)
  with Cons.prems show ?case
    by (simp add: view_call_method_other)
qed

lemma store_call_eq:
  "fst (store_call c s) = Inr (length (builders s))"
  by (simp add: store_call_def construct_def call_method_eq view_def fresh_accepts
      [unfolded new_MyBuilder_def] new_MyBuilder_def)

lemma store_combine_eq:
  "fst (store_combine r1 c r2 s) = Inr (length (builders s))"
  by (simp add: store_combine_def construct_def call_method_eq selector_def assign_stmt_def)

lemma length_store_call: "length (builders (snd (store_call c s))) = Suc (length (builders s))"
  by (simp add: store_call_def split_beta length_call_method length_construct)

lemma length_store_combine:
  "length (builders (snd (store_combine r1 c r2 s))) = Suc (length (builders s))"
  by (simp add: store_combine_def split_beta length_call_method length_construct)

text \<open>
  Separation is needed: when two builders refer to one selector object, a
  setter call on the first changes what the second renders.
\<close>

lemma shared_selectorObject_interferes:
  "stringify (view
      \<lparr>builders = [\<lparr>bo_selectorText = [], bo_selectorObject = 0\<rparr>,
                   \<lparr>bo_selectorText = [], bo_selectorObject = 0\<rparr>],
       selectorObjects = [selectorObject new_MyBuilder]\<rparr> 1) = [] \<and>
   stringify (view (snd (call_method 0 (class_sel ''a'')
      \<lparr>builders = [\<lparr>bo_selectorText = [], bo_selectorObject = 0\<rparr>,
                   \<lparr>bo_selectorText = [], bo_selectorObject = 0\<rparr>],
       selectorObjects = [selectorObject new_MyBuilder]\<rparr>)) 1) = ''.a''"
  by (simp add: call_method_eq view_def write_back_def class_sel_def stmt_defs nulls_checks
        new_MyBuilder_def stringify_unfold)


section \<open>Rendering\<close>

text \<open>
  C1. Take a builder as the constructor leaves it, with any prefix text \<open>p\<close>,
  and a chain of setter calls none of which throws. Then \<open>stringify\<close> returns
  the prefix followed by the fragments of the calls grouped by category in
  the fixed order: the element name, the id as \<open>#name\<close>, every class as
  \<open>.name\<close>, every attribute as \<open>[expr]\<close>, every pseudo-class as \<open>:name\<close>
  and the pseudo-element as \<open>::name\<close>, each group in the order of the calls.
  A singular category has at most one call in such a chain. In particular two
  class calls \<open>x\<close> and \<open>y\<close> render \<open>.x.y\<close>.
\<close>

theorem stringify_concatenates_in_category_order:
  assumes "run cs (new_MyBuilder\<lparr>selectorText := p\<rparr>) = (None, this)"
  shows "stringify this =
           p @ fragments_of CatElement cs @ fragments_of CatId cs @
           fragments_of CatClass cs @ fragments_of CatAttr cs @
           fragments_of CatPseudoClass cs @ fragments_of CatPseudoElement cs \<and>
         (singular k \<longrightarrow> length (filter (\<lambda>c. category_of c = k) cs) \<le> 1) \<and>
         run [AddClass x, AddClass y] (new_MyBuilder\<lparr>selectorText := p\<rparr>) =
           (None, new_MyBuilder\<lparr>selectorText := p,
              selectorObject := (selectorObject new_MyBuilder)\<lparr>so_class := ''.'' @ x @ ''.'' @ y\<rparr>\<rparr>) \<and>
         stringify (snd (run [AddClass x, AddClass y] (new_MyBuilder\<lparr>selectorText := p\<rparr>))) =
           p @ ''.'' @ x @ ''.'' @ y"
proof -
  have a: "stringify this =
           p @ fragments_of CatElement cs @ fragments_of CatId cs @
           fragments_of CatClass cs @ fragments_of CatAttr cs @
           fragments_of CatPseudoClass cs @ fragments_of CatPseudoElement cs"
    unfolding stringify_rendered run_rendered [OF assms] fresh_rendered
      history_touched(3) [OF assms] by simp
  have b: "singular k \<longrightarrow> length (filter (\<lambda>c. category_of c = k) cs) \<le> 1"
    using run_singular_once [OF assms fresh_proper] by simp
  have c: "run [AddClass x, AddClass y] (new_MyBuilder\<lparr>selectorText := p\<rparr>) =
           (None, new_MyBuilder\<lparr>selectorText := p,
              selectorObject := (selectorObject new_MyBuilder)\<lparr>so_class := ''.'' @ x @ ''.'' @ y\<rparr>\<rparr>)"
    by (simp add: class_sel_def stmt_defs nulls_checks new_MyBuilder_def)
  have d: "stringify (snd (run [AddClass x, AddClass y] (new_MyBuilder\<lparr>selectorText := p\<rparr>))) =
           p @ ''.'' @ x @ ''.'' @ y"
    unfolding c by (simp add: stringify_unfold new_MyBuilder_def)
  from a b c d show ?thesis by blast
qed

theorem stringify_concatenates_in_category_order_witness:
  "run [SetElement ''a'', SetId ''m'', AddClass ''c'', AddClass ''d'', AddAttr ''x=1'', AddPseudoClass ''hover'', SetPseudoElement ''after'']
     (new_MyBuilder\<lparr>selectorText := ''div > ''\<rparr>) =
   (None, \<lparr>selectorText = ''div > '', selectorObject = \<lparr>so_element = Some ''a'', so_id = Some ''#m'', so_class = ''.c.d'',
         so_attr = ''[x=1]'', so_pseudoClass = '':hover'', so_pseudoElement = Some ''::after''\<rparr>\<rparr>) \<and>
   stringify \<lparr>selectorText = ''div > '', selectorObject = \<lparr>so_element = Some ''a'', so_id = Some ''#m'', so_class = ''.c.d'',
         so_attr = ''[x=1]'', so_pseudoClass = '':hover'', so_pseudoElement = Some ''::after''\<rparr>\<rparr> = ''div > a#m.c.d[x=1]:hover::after''"
proof -
  have r: "run [SetElement ''a'', SetId ''m'', AddClass ''c'', AddClass ''d'', AddAttr ''x=1'', AddPseudoClass ''hover'', SetPseudoElement ''after'']
     (new_MyBuilder\<lparr>selectorText := ''div > ''\<rparr>) =
   (None, \<lparr>selectorText = ''div > '', selectorObject = \<lparr>so_element = Some ''a'', so_id = Some ''#m'', so_class = ''.c.d'',
         so_attr = ''[x=1]'', so_pseudoClass = '':hover'', so_pseudoElement = Some ''::after''\<rparr>\<rparr>)"
    by (simp add: element_def id_sel_def class_sel_def attr_def pseudoClass_def pseudoElement_def
          stmt_defs nulls_checks new_MyBuilder_def)
  from stringify_concatenates_in_category_order [OF r, of CatId "''x''" "''y''"] r show ?thesis
    by (simp add: fragments_of_def)
qed


section \<open>The ordering check\<close>

text \<open>
  C2. Let a builder be reached from a new one by a chain \<open>cs\<close> of accepted
  calls. A further call throws the ordering error exactly when a category
  strictly after its own has received a call in \<open>cs\<close> and the call is not a
  repeat of a singular category; such a repeat throws the uniqueness error
  instead. In particular id after class throws the ordering error, class after
  id is accepted, and a call of class, attr or pseudoClass is accepted whenever
  no later category has received a call, whatever its own category received.
\<close>

theorem ordering_error_iff_later_category_received:
  assumes "run cs (new_MyBuilder\<lparr>selectorText := p\<rparr>) = (None, this)"
  shows "((fst (invoke_call c this) = Some (Error ordError)) =
            (later_received cs (category_of c) \<and>
             \<not> (singular (category_of c) \<and> received cs (category_of c)))) \<and>
         ((fst (invoke_call c this) = Some (Error uniError)) =
            (singular (category_of c) \<and> received cs (category_of c))) \<and>
         ((fst (invoke_call c this) = None) =
            (\<not> later_received cs (category_of c) \<and>
             \<not> (singular (category_of c) \<and> received cs (category_of c)))) \<and>
         fst (run [AddClass x, SetId y] (new_MyBuilder\<lparr>selectorText := p\<rparr>)) =
           Some (Error ordError) \<and>
         fst (run [SetId y, AddClass x] (new_MyBuilder\<lparr>selectorText := p\<rparr>)) = None \<and>
         (\<not> singular (category_of c) \<and> \<not> later_received cs (category_of c) \<longrightarrow>
            fst (invoke_call c this) = None)"
proof -
  note out = invoke_call_outcome [OF history_touched(1) [OF assms]]
    history_touched(2) [OF assms] history_later_touched [OF assms]
  have a: "(fst (invoke_call c this) = Some (Error ordError)) =
            (later_received cs (category_of c) \<and>
             \<not> (singular (category_of c) \<and> received cs (category_of c)))"
    using uniError_neq_ordError by (auto simp: out)
  have b: "(fst (invoke_call c this) = Some (Error uniError)) =
            (singular (category_of c) \<and> received cs (category_of c))"
    using uniError_neq_ordError by (auto simp: out)
  have c: "(fst (invoke_call c this) = None) =
            (\<not> later_received cs (category_of c) \<and>
             \<not> (singular (category_of c) \<and> received cs (category_of c)))"
    by (auto simp: out)
  have d: "fst (run [AddClass x, SetId y] (new_MyBuilder\<lparr>selectorText := p\<rparr>)) =
           Some (Error ordError)"
    by (simp add: class_sel_def id_sel_def stmt_defs nulls_checks new_MyBuilder_def)
  have e: "fst (run [SetId y, AddClass x] (new_MyBuilder\<lparr>selectorText := p\<rparr>)) = None"
    by (simp add: class_sel_def id_sel_def stmt_defs nulls_checks new_MyBuilder_def)
  from a b c d e show ?thesis by blast
qed

theorem ordering_error_iff_later_category_received_witness:
  "run [SetId ''main'', AddClass ''a'', AddClass ''b''] (new_MyBuilder\<lparr>selectorText := []\<rparr>) =
     (None, \<lparr>selectorText = [], selectorObject = \<lparr>so_element = None, so_id = Some ''#main'',
        so_class = ''.a.b'', so_attr = [], so_pseudoClass = [], so_pseudoElement = None\<rparr>\<rparr>) \<and>
   fst (invoke_call (SetElement ''div'')
     \<lparr>selectorText = [], selectorObject = \<lparr>so_element = None, so_id = Some ''#main'',
        so_class = ''.a.b'', so_attr = [], so_pseudoClass = [], so_pseudoElement = None\<rparr>\<rparr>) =
     Some (Error ordError) \<and>
   later_received [SetId ''main'', AddClass ''a'', AddClass ''b''] CatElement \<and>
   \<not> received [SetId ''main'', AddClass ''a'', AddClass ''b''] CatElement"
proof -
  have r: "run [SetId ''main'', AddClass ''a'', AddClass ''b''] (new_MyBuilder\<lparr>selectorText := []\<rparr>) =
     (None, \<lparr>selectorText = [], selectorObject = \<lparr>so_element = None, so_id = Some ''#main'',
        so_class = ''.a.b'', so_attr = [], so_pseudoClass = [], so_pseudoElement = None\<rparr>\<rparr>)"
    by (simp add: id_sel_def class_sel_def stmt_defs nulls_checks new_MyBuilder_def)
  have l: "later_received [SetId ''main'', AddClass ''a'', AddClass ''b''] CatElement"
    by (simp add: later_received_def)
  have n: "\<not> received [SetId ''main'', AddClass ''a'', AddClass ''b''] CatElement"
    by (simp add: received_def)
  from ordering_error_iff_later_category_received [OF r, of "SetElement ''div''" "''x''" "''y''"] r l n show ?thesis by simp
qed


section \<open>The uniqueness check\<close>

text \<open>
  C3. Let a builder be reached from a new one by a chain \<open>cs\<close> of accepted
  calls. A call of element, id or pseudoElement whose category already has a
  call in \<open>cs\<close> throws the uniqueness error, whatever else \<open>cs\<close> contains, and
  leaves the builder as it was.
\<close>

theorem singular_repeat_raises_uniqueness_error:
  assumes "run cs (new_MyBuilder\<lparr>selectorText := p\<rparr>) = (None, this)"
    and "singular (category_of c)"
    and "received cs (category_of c)"
  shows "invoke_call c this = (Some (Error uniError), this)"
proof -
  have "fst (invoke_call c this) = Some (Error uniError)"
    using assms(2,3)
    by (simp add: invoke_call_outcome [OF history_touched(1) [OF assms(1)]]
          history_touched(2) [OF assms(1)])
  with invoke_call_rejected [of c this "Error uniError"] show ?thesis
    by (simp add: prod_eq_iff)
qed

theorem singular_repeat_raises_uniqueness_error_witness:
  "run [SetElement ''div'', AddClass ''a'', SetPseudoElement ''after''] (new_MyBuilder\<lparr>selectorText := []\<rparr>) =
     (None, \<lparr>selectorText = [], selectorObject = \<lparr>so_element = Some ''div'', so_id = None,
        so_class = ''.a'', so_attr = [], so_pseudoClass = [], so_pseudoElement = Some ''::after''\<rparr>\<rparr>) \<and>
   singular (category_of (SetElement ''p'')) \<and>
   received [SetElement ''div'', AddClass ''a'', SetPseudoElement ''after''] (category_of (SetElement ''p'')) \<and>
   later_received [SetElement ''div'', AddClass ''a'', SetPseudoElement ''after''] (category_of (SetElement ''p'')) \<and>
   invoke_call (SetElement ''p'')
     \<lparr>selectorText = [], selectorObject = \<lparr>so_element = Some ''div'', so_id = None,
        so_class = ''.a'', so_attr = [], so_pseudoClass = [], so_pseudoElement = Some ''::after''\<rparr>\<rparr> =
     (Some (Error uniError),
      \<lparr>selectorText = [], selectorObject = \<lparr>so_element = Some ''div'', so_id = None,
        so_class = ''.a'', so_attr = [], so_pseudoClass = [], so_pseudoElement = Some ''::after''\<rparr>\<rparr>)"
proof -
  have r: "run [SetElement ''div'', AddClass ''a'', SetPseudoElement ''after''] (new_MyBuilder\<lparr>selectorText := []\<rparr>) =
     (None, \<lparr>selectorText = [], selectorObject = \<lparr>so_element = Some ''div'', so_id = None,
        so_class = ''.a'', so_attr = [], so_pseudoClass = [], so_pseudoElement = Some ''::after''\<rparr>\<rparr>)"
    by (simp add: element_def class_sel_def pseudoElement_def stmt_defs nulls_checks new_MyBuilder_def)
  have s: "singular (category_of (SetElement ''p''))" by simp
  have t: "received [SetElement ''div'', AddClass ''a'', SetPseudoElement ''after''] (category_of (SetElement ''p''))"
    by (simp add: received_def)
  have l: "later_received [SetElement ''div'', AddClass ''a'', SetPseudoElement ''after''] (category_of (SetElement ''p''))"
    by (simp add: later_received_def)
  from singular_repeat_raises_uniqueness_error [OF r s t] r s t l show ?thesis by simp
qed


section \<open>A rejected call changes nothing\<close>

text \<open>
  C5. If a setter call throws, on any builder state, the state after the call
  is the state before it. Hence \<open>stringify\<close> and every later call, or sequence
  of calls, give what they would have given without the rejected call.
\<close>

theorem rejected_call_leaves_state_unchanged:
  assumes "fst (invoke_call c this) = Some e"
  shows "snd (invoke_call c this) = this \<and>
         stringify (snd (invoke_call c this)) = stringify this \<and>
         invoke_call d (snd (invoke_call c this)) = invoke_call d this \<and>
         trace (snd (invoke_call c this)) cs = trace this cs \<and>
         trace this (c # cs) = Some e # trace this cs"
  using assms invoke_call_rejected [OF assms] by simp

theorem rejected_call_leaves_state_unchanged_witness:
  "fst (invoke_call (SetId ''main'')
      (new_MyBuilder\<lparr>selectorObject := (selectorObject new_MyBuilder)\<lparr>so_class := ''.a''\<rparr>\<rparr>)) =
     Some (Error ordError) \<and>
   snd (invoke_call (SetId ''main'')
      (new_MyBuilder\<lparr>selectorObject := (selectorObject new_MyBuilder)\<lparr>so_class := ''.a''\<rparr>\<rparr>)) =
     new_MyBuilder\<lparr>selectorObject := (selectorObject new_MyBuilder)\<lparr>so_class := ''.a''\<rparr>\<rparr>"
proof -
  have r: "fst (invoke_call (SetId ''main'')
      (new_MyBuilder\<lparr>selectorObject := (selectorObject new_MyBuilder)\<lparr>so_class := ''.a''\<rparr>\<rparr>)) =
     Some (Error ordError)"
    by (simp add: id_sel_def stmt_defs nulls_checks new_MyBuilder_def)
  from rejected_call_leaves_state_unchanged [OF r, of "SetId ''x''" "[]"] r show ?thesis by simp
qed


section \<open>Combination\<close>

text \<open>
  C4. For builders \<open>a\<close>, \<open>b\<close>, \<open>c\<close> of the store and any combinators \<open>c1\<close>,
  \<open>c2\<close> (in particular the four symbols), the builder that \<open>combine\<close> returns
  renders as the rendering of \<open>a\<close>, a space, \<open>c1\<close>, a space, and the rendering
  of \<open>b\<close>. Combining the result with \<open>c\<close> renders all three joined in the same
  way, so \<open>+\<close> and then \<open>~\<close> give \<open>A + B ~ C\<close>, and the space combinator puts
  three spaces between the two renderings.
\<close>

theorem stringify_combine:
  assumes "a < length h" "b < length h" "c < length h"
  shows "fst (css_combine a c1 b h) = Inr (length h) \<and>
         stringify (snd (css_combine a c1 b h) ! length h) =
           stringify (h ! a) @ '' '' @ c1 @ '' '' @ stringify (h ! b) \<and>
         fst (css_combine (length h) c2 c (snd (css_combine a c1 b h))) = Inr (Suc (length h)) \<and>
         stringify (snd (css_combine (length h) c2 c (snd (css_combine a c1 b h))) ! Suc (length h)) =
           stringify (h ! a) @ '' '' @ c1 @ '' '' @ stringify (h ! b) @ '' '' @ c2 @ '' '' @ stringify (h ! c) \<and>
         stringify (snd (css_combine (length h) ''~'' c (snd (css_combine a ''+'' b h))) ! Suc (length h)) =
           stringify (h ! a) @ '' + '' @ stringify (h ! b) @ '' ~ '' @ stringify (h ! c) \<and>
         stringify (snd (css_combine a '' '' b h) ! length h) =
           stringify (h ! a) @ ''   '' @ stringify (h ! b)"
  using assms
  by (simp add: css_combine_eq nth_append stringify_prefix_only)

theorem stringify_combine_witness:
  "(0::nat) < length [snd (element ''div'' new_MyBuilder), snd (id_sel ''main'' new_MyBuilder),
        snd (class_sel ''c'' new_MyBuilder)] \<and>
   (1::nat) < length [snd (element ''div'' new_MyBuilder), snd (id_sel ''main'' new_MyBuilder),
        snd (class_sel ''c'' new_MyBuilder)] \<and>
   (2::nat) < length [snd (element ''div'' new_MyBuilder), snd (id_sel ''main'' new_MyBuilder),
        snd (class_sel ''c'' new_MyBuilder)] \<and>
   stringify (snd (css_combine 3 ''~'' 2 (snd (css_combine 0 ''+'' 1
      [snd (element ''div'' new_MyBuilder), snd (id_sel ''main'' new_MyBuilder),
        snd (class_sel ''c'' new_MyBuilder)]))) ! 4) = ''div + #main ~ .c'' \<and>
   stringify (snd (css_combine 0 '' '' 1
      [snd (element ''div'' new_MyBuilder), snd (id_sel ''main'' new_MyBuilder),
        snd (class_sel ''c'' new_MyBuilder)]) ! 3) = ''div   #main''"
proof -
  let ?h = "[snd (element ''div'' new_MyBuilder), snd (id_sel ''main'' new_MyBuilder),
        snd (class_sel ''c'' new_MyBuilder)]"
  have len: "(0::nat) < length ?h" "(1::nat) < length ?h" "(2::nat) < length ?h"
    by simp_all
  have l: "Suc (length ?h) = 4" "length ?h = 3"
    by simp_all
  have s: "stringify (?h ! 0) = ''div''" "stringify (?h ! 1) = ''#main''"
    "stringify (?h ! 2) = ''.c''"
    by (simp_all add: element_def id_sel_def class_sel_def stmt_defs nulls_checks
          new_MyBuilder_def stringify_unfold)
  note t = stringify_combine [OF len, of "''+''" "''~''", unfolded l s]
  from t len show ?thesis by simp
qed


section \<open>The check against the reference model\<close>

text \<open>
  C6. The check the code makes by looking for fixed strings in \<open>getNulls\<close>
  agrees with the reference model of touched categories and highest-category
  pointer: for every sequence of calls on a new builder, with any string
  arguments (the empty string too) and with rejected calls caught, the two
  record the same outcome for every call, acceptance or the same kind of
  error; the two kinds of error are distinct.
\<close>

theorem check_refines_reference_model:
  "trace (new_MyBuilder\<lparr>selectorText := p\<rparr>) cs = map (map_option error_of) (ref_trace ref_init cs) \<and>
   error_of Uniqueness \<noteq> error_of Ordering"
  using sim_trace [OF sim_init] uniError_neq_ordError by simp

theorem check_refines_reference_model_witness:
  "trace (new_MyBuilder\<lparr>selectorText := []\<rparr>)
     [SetElement [], SetElement ''a'', SetId [], AddClass [], SetId ''x'', AddPseudoClass [],
      AddAttr ''z'', SetPseudoElement [], SetPseudoElement [], AddPseudoClass []] =
     [None, Some (Error uniError), None, None, Some (Error uniError), None,
      Some (Error ordError), None, Some (Error uniError), Some (Error ordError)] \<and>
   ref_trace ref_init
     [SetElement [], SetElement ''a'', SetId [], AddClass [], SetId ''x'', AddPseudoClass [],
      AddAttr ''z'', SetPseudoElement [], SetPseudoElement [], AddPseudoClass []] =
     [None, Some Uniqueness, None, None, Some Uniqueness, None,
      Some Ordering, None, Some Uniqueness, Some Ordering]"
proof -
  have r: "ref_trace ref_init
     [SetElement [], SetElement ''a'', SetId [], AddClass [], SetId ''x'', AddPseudoClass [],
      AddAttr ''z'', SetPseudoElement [], SetPseudoElement [], AddPseudoClass []] =
     [None, Some Uniqueness, None, None, Some Uniqueness, None,
      Some Ordering, None, Some Uniqueness, Some Ordering]"
    by (simp add: ref_call_def ref_init_def)
  from check_refines_reference_model [of "[]" "[SetElement [], SetElement ''a'', SetId [], AddClass [], SetId ''x'', AddPseudoClass [],
      AddAttr ''z'', SetPseudoElement [], SetPseudoElement [], AddPseudoClass []]"] r
  show ?thesis by simp
qed


section \<open>The facade\<close>

text \<open>
  C7. Each of the six facade methods allocates a new builder, with empty prefix
  text and every category property as the constructor sets it, applies the one
  corresponding setter to it, which is accepted, and returns the new
  reference; the builder then renders as the fragment of that one call. The
  facade's own \<open>stringify\<close> renders a new builder and returns the empty string.
\<close>

theorem facade_applies_one_setter_to_fresh_builder:
  "css_call c h = (Inr (length h), h @ [snd (invoke_call c new_MyBuilder)]) \<and>
   fst (invoke_call c new_MyBuilder) = None \<and>
   selectorText new_MyBuilder = [] \<and>
   object_values (selectorObject new_MyBuilder) = [None, None, Some [], Some [], Some [], None] \<and>
   stringify (snd (invoke_call c new_MyBuilder)) = fragment c \<and>
   css_stringify h = ([], h @ [new_MyBuilder])"
proof -
  have "run [c] new_MyBuilder = (None, snd (invoke_call c new_MyBuilder))"
    using fresh_accepts [of c] by (cases "invoke_call c new_MyBuilder") (simp add: seq_stmt_def)
  then have "run [c] (new_MyBuilder\<lparr>selectorText := []\<rparr>) = (None, snd (invoke_call c new_MyBuilder))"
    by (simp add: new_MyBuilder_def)
  from run_rendered [OF this] history_touched(3) [OF this]
  have "stringify (snd (invoke_call c new_MyBuilder)) = fragment c"
    by (cases c) (simp_all add: stringify_rendered fresh_rendered fragments_of_def)
  moreover have "css_stringify h = ([], h @ [new_MyBuilder])"
    by (simp add: css_stringify_def alloc_def stringify_unfold new_MyBuilder_def)
  ultimately show ?thesis
    by (simp add: css_call_eq fresh_accepts) (simp add: new_MyBuilder_def object_values_def entries_def)
qed


section \<open>Builders are separate objects\<close>

text \<open>
  C8. Take any store a client can reach from the empty one by facade calls
  (the six setter methods, \<open>combine\<close>, \<open>stringify\<close>) and setter calls on the
  builders it holds. No two builders of it refer to the same selector object.
  For any two different builders of it, any sequence of setter calls on the
  first leaves the state and the rendering of the second unchanged. Every
  further facade call, \<open>combine\<close> included, returns a new builder, different
  from all those of the store.
\<close>

theorem builders_share_no_state:
  assumes "r1 < length (builders (exec ops empty_store))"
    and "r2 < length (builders (exec ops empty_store))"
    and "r1 \<noteq> r2"
  shows "separate (exec ops empty_store) \<and>
         view (exec (map (Setter r1) cs) (exec ops empty_store)) r2 =
           view (exec ops empty_store) r2 \<and>
         stringify (view (exec (map (Setter r1) cs) (exec ops empty_store)) r2) =
           stringify (view (exec ops empty_store) r2) \<and>
         fst (store_call f (exec ops empty_store)) =
           Inr (length (builders (exec ops empty_store))) \<and>
         length (builders (snd (store_call f (exec ops empty_store)))) =
           Suc (length (builders (exec ops empty_store))) \<and>
         fst (store_combine r1 c r2 (exec ops empty_store)) =
           Inr (length (builders (exec ops empty_store))) \<and>
         length (builders (snd (store_combine r1 c r2 (exec ops empty_store)))) =
           Suc (length (builders (exec ops empty_store)))"
  using view_setters_other [OF separate_exec [OF separate_empty] assms]
    separate_exec [OF separate_empty, of ops]
  by (simp add: store_call_eq store_combine_eq length_store_call length_store_combine)

theorem builders_share_no_state_witness:
  "exec [Facade (SetElement ''div''), Facade (AddClass ''a''), Combine 0 ''+'' 1] empty_store =
     \<lparr>builders = [\<lparr>bo_selectorText = [], bo_selectorObject = 0\<rparr>,
                  \<lparr>bo_selectorText = [], bo_selectorObject = 1\<rparr>,
                  \<lparr>bo_selectorText = ''div + .a'', bo_selectorObject = 2\<rparr>],
      selectorObjects =
        [(selectorObject new_MyBuilder)\<lparr>so_element := Some ''div''\<rparr>,
         (selectorObject new_MyBuilder)\<lparr>so_class := ''.a''\<rparr>,
         selectorObject new_MyBuilder]\<rparr> \<and>
   stringify (view (exec (map (Setter 0) [SetId ''x'', AddClass ''y''])
     (exec [Facade (SetElement ''div''), Facade (AddClass ''a''), Combine 0 ''+'' 1] empty_store))
     0) = ''div#x.y'' \<and>
   stringify (view (exec (map (Setter 0) [SetId ''x'', AddClass ''y''])
     (exec [Facade (SetElement ''div''), Facade (AddClass ''a''), Combine 0 ''+'' 1] empty_store))
     1) = ''.a'' \<and>
   stringify (view (exec (map (Setter 0) [SetId ''x'', AddClass ''y''])
     (exec [Facade (SetElement ''div''), Facade (AddClass ''a''), Combine 0 ''+'' 1] empty_store))
     2) = ''div + .a''"
proof -
  let ?ops = "[Facade (SetElement ''div''), Facade (AddClass ''a''), Combine 0 ''+'' 1]"
  let ?s = "\<lparr>builders = [\<lparr>bo_selectorText = [], bo_selectorObject = 0\<rparr>,
                  \<lparr>bo_selectorText = [], bo_selectorObject = 1\<rparr>,
                  \<lparr>bo_selectorText = ''div + .a'', bo_selectorObject = 2\<rparr>],
      selectorObjects =
        [(selectorObject new_MyBuilder)\<lparr>so_element := Some ''div''\<rparr>,
         (selectorObject new_MyBuilder)\<lparr>so_class := ''.a''\<rparr>,
         selectorObject new_MyBuilder]\<rparr>"
  let ?cs = "[SetId ''x'', AddClass ''y'']"
  have e: "exec ?ops empty_store = ?s"
    by (simp add: empty_store_def store_call_def store_combine_def construct_def call_method_eq
          view_def write_back_def element_def class_sel_def selector_def stmt_defs nulls_checks
          new_MyBuilder_def stringify_unfold)
  have len: "(0::nat) < length (builders (exec ?ops empty_store))"
    "(1::nat) < length (builders (exec ?ops empty_store))"
    "(2::nat) < length (builders (exec ?ops empty_store))"
    unfolding e by simp_all
  have v: "stringify (view (exec ?ops empty_store) 1) = ''.a''"
    "stringify (view (exec ?ops empty_store) 2) = ''div + .a''"
    unfolding e by (simp_all add: view_def new_MyBuilder_def stringify_unfold)
  have m: "stringify (view (exec (map (Setter 0) ?cs) (exec ?ops empty_store)) 0) = ''div#x.y''"
    unfolding e
    by (simp add: call_method_eq view_def write_back_def id_sel_def class_sel_def stmt_defs
          nulls_checks new_MyBuilder_def stringify_unfold)
  have n1: "(0::nat) \<noteq> 1" and n2: "(0::nat) \<noteq> 2" by simp_all
  note t1 = builders_share_no_state [OF len(1) len(2) n1, of ?cs, unfolded v]
  note t2 = builders_share_no_state [OF len(1) len(3) n2, of ?cs, unfolded v]
  from t1 t2 e m show ?thesis by blast
qed


section \<open>Combination keeps a snapshot\<close>

text \<open>
  C9. \<open>combine\<close> stores the text made of the two renderings and the
  combinator, as they are at the time of the call, in the prefix text of the
  new builder. Setter calls made afterwards on the two operands, in any number
  and order, do not change what the combined builder renders.
\<close>

theorem combine_is_a_snapshot:
  assumes "b1 < length h" "b2 < length h"
    and "fst ` set rcs \<subseteq> {b1, b2}"
  shows "fst (css_combine b1 c b2 h) = Inr (length h) \<and>
         selectorText (snd (css_combine b1 c b2 h) ! length h) =
           stringify (h ! b1) @ '' '' @ c @ '' '' @ stringify (h ! b2) \<and>
         stringify (snd (css_combine b1 c b2 h) ! length h) =
           stringify (h ! b1) @ '' '' @ c @ '' '' @ stringify (h ! b2) \<and>
         stringify (run_calls rcs (snd (css_combine b1 c b2 h)) ! length h) =
           stringify (h ! b1) @ '' '' @ c @ '' '' @ stringify (h ! b2)"
proof -
  from assms have "length h \<notin> fst ` set rcs" by auto
  from run_calls_frame [OF this] assms(1,2) show ?thesis
    by (auto simp: css_combine_eq nth_append stringify_prefix_only)
qed

theorem combine_is_a_snapshot_witness:
  "(0::nat) < length [snd (element ''div'' new_MyBuilder), snd (element ''p'' new_MyBuilder)] \<and>
   (1::nat) < length [snd (element ''div'' new_MyBuilder), snd (element ''p'' new_MyBuilder)] \<and>
   fst ` set [(0, AddClass ''z''), (1, SetId ''q'')] \<subseteq> {0::nat, 1} \<and>
   stringify (run_calls [(0, AddClass ''z''), (1, SetId ''q'')]
     (snd (css_combine 0 ''>'' 1
        [snd (element ''div'' new_MyBuilder), snd (element ''p'' new_MyBuilder)])) ! 0) = ''div.z'' \<and>
   stringify (run_calls [(0, AddClass ''z''), (1, SetId ''q'')]
     (snd (css_combine 0 ''>'' 1
        [snd (element ''div'' new_MyBuilder), snd (element ''p'' new_MyBuilder)])) ! 1) = ''p#q'' \<and>
   stringify (run_calls [(0, AddClass ''z''), (1, SetId ''q'')]
     (snd (css_combine 0 ''>'' 1
        [snd (element ''div'' new_MyBuilder), snd (element ''p'' new_MyBuilder)])) ! 2) = ''div > p''"
proof -
  let ?h = "[snd (element ''div'' new_MyBuilder), snd (element ''p'' new_MyBuilder)]"
  let ?rcs = "[(0::nat, AddClass ''z''), (1, SetId ''q'')]"
  have len: "(0::nat) < length ?h" "(1::nat) < length ?h"
    by simp_all
  have sub: "fst ` set ?rcs \<subseteq> {0::nat, 1}"
    by simp
  have l: "length ?h = 2"
    by simp
  have m: "stringify (run_calls ?rcs (snd (css_combine 0 ''>'' 1 ?h)) ! 0) = ''div.z''"
    "stringify (run_calls ?rcs (snd (css_combine 0 ''>'' 1 ?h)) ! 1) = ''p#q''"
    by (simp_all add: css_combine_eq invoke_eq element_def id_sel_def class_sel_def stmt_defs
          nulls_checks new_MyBuilder_def stringify_unfold)
  have s: "stringify (?h ! 0) = ''div''" "stringify (?h ! 1) = ''p''"
    by (simp_all add: element_def stmt_defs nulls_checks new_MyBuilder_def stringify_unfold)
  note t = combine_is_a_snapshot [OF len sub, of "''>''", unfolded l s]
  from t have "stringify (run_calls ?rcs (snd (css_combine 0 ''>'' 1 ?h)) ! 2) = ''div > p''"
    by simp
  with len sub m show ?thesis by blast
qed


section \<open>Rectangle: the constructor and the area\<close>

text \<open>
  C10. For every width and height, the object built by
  \<^verbatim>\<open>new Rectangle(width, height)\<close> has these two values in its fields
  \<open>width\<close> and \<open>height\<close>, and \<open>getArea\<close> returns their product.
\<close>

theorem Rectangle_fields_and_area:
  "width (new_Rectangle w h) = w \<and>
   height (new_Rectangle w h) = h \<and>
   getArea (new_Rectangle w h) = w * h"
  by (simp add: new_Rectangle_def getArea_def)

end
